theory Spec2Isabelle
  imports Main
begin

section \<open>Data model\<close>

text \<open>
  The converter works on pandas data frames. A frame is modelled by its column labels and
  its body: the rows in order, each carrying its index label and its cells. A cell is
  \<open>None\<close> when the value is missing (pandas' NaN) and \<open>Some v\<close> otherwise. The cell type
  \<open>'a\<close> is left open: pandas compares cells by value, and HOL equality on \<open>'a\<close> stands
  for that comparison (two missing cells count as equal when rows are compared, as in
  pandas' \<open>duplicated\<close>).

  A frame read with \<open>header=None\<close> has the integer labels \<open>0, 1, ...\<close>; after relabelling
  the labels are strings.
\<close>

datatype label = IntLabel nat | StrLabel string

record 'a dataframe =
  columns :: "label list"
  body :: "(nat \<times> 'a option list) list"

definition cells :: "'a dataframe \<Rightarrow> 'a option list list" where
  "cells df = map snd (body df)"

definition index :: "'a dataframe \<Rightarrow> nat list" where
  "index df = map fst (body df)"

text \<open>Every row of a frame has one cell per column.\<close>

definition rectangular :: "'a dataframe \<Rightarrow> bool" where
  "rectangular df = list_all (\<lambda>r. length r = length (columns df)) (cells df)"

definition WINE_HEADERS :: "string list" where
  "WINE_HEADERS =
    [''Cultivars'', ''Alcohol'', ''Malic acid'', ''Ash'', ''Alcalinity of ash'',
     ''Magnesium'', ''Total phenols'', ''Flavanoids'', ''Nonflavanoid phenols'',
     ''Proanthocyanins'', ''Color intensity'', ''Hue'',
     ''OD280/OD315 of diluted wines'', ''Proline'']"

section \<open>Cleaning\<close>

text \<open>
  \<^verbatim>\<open>
  def clean_df(df):
      df = df.drop_duplicates().reset_index(drop=True)
      df = df.ffill()
      return df
  \<close>
  \<open>drop_duplicates\<close> (pandas default \<open>keep='first'\<close>) walks the rows from the top and
  keeps a row when no earlier row has the same cells; kept rows keep their index label.
\<close>

fun first_rows :: "'r list \<Rightarrow> ('i \<times> 'r) list \<Rightarrow> ('i \<times> 'r) list" where
  "first_rows seen [] = []"
| "first_rows seen ((i, r) # rest) =
     (if r \<in> set seen then first_rows seen rest
      else (i, r) # first_rows (r # seen) rest)"

definition drop_duplicates :: "'a dataframe \<Rightarrow> 'a dataframe" where
  "drop_duplicates df = df\<lparr>body := first_rows [] (body df)\<rparr>"

text \<open>\<open>reset_index(drop=True)\<close> discards the index labels and numbers the rows from 0.\<close>

definition reset_index :: "'a dataframe \<Rightarrow> 'a dataframe" where
  "reset_index df = df\<lparr>body := zip [0..<length (body df)] (map snd (body df))\<rparr>"

text \<open>
  \<open>ffill\<close> scans every column from the top and replaces a missing cell by the last value
  seen above it in the same column. \<open>fill_row prev r\<close> fills the row \<open>r\<close> from the filled
  row \<open>prev\<close> above it; the first row has nothing above it (\<open>prev = []\<close>).
\<close>

fun fill_row :: "'a option list \<Rightarrow> 'a option list \<Rightarrow> 'a option list" where
  "fill_row (p # ps) (c # cs) = (case c of None \<Rightarrow> p | Some v \<Rightarrow> Some v) # fill_row ps cs"
| "fill_row [] cs = cs"
| "fill_row ps [] = []"

fun ffill_from :: "'a option list \<Rightarrow> 'a option list list \<Rightarrow> 'a option list list" where
  "ffill_from prev [] = []"
| "ffill_from prev (r # rs) = fill_row prev r # ffill_from (fill_row prev r) rs"

definition ffill :: "'a dataframe \<Rightarrow> 'a dataframe" where
  "ffill df = df\<lparr>body := zip (map fst (body df)) (ffill_from [] (map snd (body df)))\<rparr>"

definition clean_df :: "'a dataframe \<Rightarrow> 'a dataframe" where
  "clean_df df = ffill (reset_index (drop_duplicates df))"

text \<open>A two-row table of the Wine schema whose second row lacks its first value.\<close>

definition gap_table :: "string dataframe" where
  "gap_table =
    \<lparr>columns = map StrLabel WINE_HEADERS,
     body = [(0, Some ''1'' # replicate 13 (Some ''0'')),
             (1, None # replicate 13 (Some ''0''))]\<rparr>"

text \<open>
  A three-row table of the Wine schema: the second row repeats the first, the third lacks
  its first value.
\<close>

definition sample_table :: "string dataframe" where
  "sample_table =
    \<lparr>columns = map StrLabel WINE_HEADERS,
     body = [(0, Some ''1'' # replicate 13 (Some ''0'')),
             (1, Some ''1'' # replicate 13 (Some ''0'')),
             (2, None # replicate 13 (Some ''5''))]\<rparr>"

section \<open>Files and errors\<close>

text \<open>
  A file system maps a path to the bytes stored there; a byte is a \<^typ>\<open>char\<close>. A text
  (a field, a cell, a label, a path) is kept as its UTF-8 bytes.

  The Python exceptions that the pipeline functions raise, or let through from the
  library, are the constructors of \<open>error\<close>. \<open>ValueError\<close>, \<open>ImportError\<close> and
  \<open>EmptyDataError\<close> carry their message. \<open>FileNotFoundError\<close> carries the attributes
  \<open>errno\<close>, \<open>strerror\<close> and \<open>filename\<close> of the exception, from which Python composes the
  message \<open>[Errno 2] No such file or directory:\<close> followed by the quoted file name.
  The message of \<open>UnicodeDecodeError\<close> is not modelled. \<open>StopIteration\<close> is raised and
  caught inside the parser.
\<close>

type_synonym bytes = "char list"

type_synonym fs = "string \<rightharpoonup> bytes"

datatype error =
    ValueError string
  | ImportError string
  | EmptyDataError string
  | FileNotFoundError nat string string
  | UnicodeDecodeError
  | StopIteration

section \<open>Loading\<close>

subsection \<open>The sample that decides the delimiter\<close>

text \<open>
  \<^verbatim>\<open>
  sample = path.read_text(encoding="utf-8", errors="ignore")[:2048]
  delimiter = "," if "," in sample else None
  \<close>
  \<open>read_text\<close> decodes the whole file and translates line ends; the slice then takes the
  first 2048 characters of the decoded text. A character is modelled by its code point.

  The decoder with \<open>errors="ignore"\<close>: a well-formed UTF-8 sequence (lead byte and
  continuation bytes in the ranges of the Unicode standard) yields its code point; when a
  byte breaks a sequence, the bytes of the sequence read so far are dropped and decoding
  resumes at the breaking byte; a byte that cannot start a sequence is dropped; a
  sequence cut off by the end of the file is dropped. \<open>lead_byte\<close> gives, for a lead
  byte, the number of continuation bytes, the payload of the lead byte and the range of
  the first continuation byte.
\<close>

definition lead_byte :: "nat \<Rightarrow> (nat \<times> nat \<times> nat \<times> nat) option" where
  "lead_byte c =
    (if 194 \<le> c \<and> c \<le> 223 then Some (1, c - 192, 128, 191)
     else if c = 224 then Some (2, 0, 160, 191)
     else if c = 237 then Some (2, 13, 128, 159)
     else if 225 \<le> c \<and> c \<le> 239 then Some (2, c - 224, 128, 191)
     else if c = 240 then Some (3, 0, 144, 191)
     else if 241 \<le> c \<and> c \<le> 243 then Some (3, c - 240, 128, 191)
     else if c = 244 then Some (3, 4, 128, 143)
     else None)"

fun utf8_ignore_from :: "nat \<Rightarrow> nat \<Rightarrow> nat \<Rightarrow> nat \<Rightarrow> bytes \<Rightarrow> nat list" where
  "utf8_ignore_from k acc lo hi [] = []"
| "utf8_ignore_from 0 acc lo hi (b # bs) =
     (if (of_char b :: nat) < 128 then of_char b # utf8_ignore_from 0 0 0 0 bs
      else case lead_byte (of_char b) of
             None \<Rightarrow> utf8_ignore_from 0 0 0 0 bs
           | Some (k, acc', lo', hi') \<Rightarrow> utf8_ignore_from k acc' lo' hi' bs)"
| "utf8_ignore_from (Suc k) acc lo hi (b # bs) =
     (if lo \<le> of_char b \<and> of_char b \<le> hi
      then (if k = 0 then (acc * 64 + (of_char b - 128)) # utf8_ignore_from 0 0 0 0 bs
            else utf8_ignore_from k (acc * 64 + (of_char b - 128)) 128 191 bs)
      else utf8_ignore_from 0 0 0 0 (b # bs))"

definition utf8_ignore :: "bytes \<Rightarrow> nat list" where
  "utf8_ignore bs = utf8_ignore_from 0 0 0 0 bs"

text \<open>Text mode turns \<open>CR LF\<close> and a lone \<open>CR\<close> into \<open>LF\<close>.\<close>

fun universal_newlines :: "nat list \<Rightarrow> nat list" where
  "universal_newlines [] = []"
| "universal_newlines [c] = [if c = 13 then 10 else c]"
| "universal_newlines (c # d # cs) =
     (if c = 13 \<and> d = 10 then 10 # universal_newlines cs
      else if c = 13 then 10 # universal_newlines (d # cs)
      else c # universal_newlines (d # cs))"

definition read_text :: "bytes \<Rightarrow> nat list" where
  "read_text content = universal_newlines (utf8_ignore content)"

definition sample_of :: "bytes \<Rightarrow> nat list" where
  "sample_of content = take 2048 (read_text content)"

definition infer_delimiter :: "bytes \<Rightarrow> char option" where
  "infer_delimiter content = (if 44 \<in> set (sample_of content) then Some CHR '','' else None)"

subsection \<open>Parsing\<close>

text \<open>
  \<^verbatim>\<open>
  df = pd.read_csv(path, delimiter=delimiter, header=None, engine="python",
                   on_bad_lines="skip")
  \<close>
  Two parts of the library are parameters of the model.
  \<^item> \<open>reader\<close>: what the csv tokenizer yields for the file of that name and content
    under a delimiter. The library opens the file (through a decompressor when the
    file name ends in \<open>.gz\<close>, \<open>.bz2\<close>, \<open>.zip\<close>, \<open>.xz\<close>, \<open>.zst\<close> or \<open>.tar\<close>), decodes it
    as UTF-8 piece by piece, this time without ignoring undecodable bytes, and hands the
    text to Python's \<open>csv.reader\<close>. The result is the list of the records read, each
    the list of its fields, \<open>None\<close> standing for a record on which the tokenizer raises
    \<open>csv.Error\<close>, and the error that ends the reading if one does (the records before it
    are those yielded before the error is raised).
  \<^item> \<open>infer\<close>: the conversion of a column: \<open>infer col t\<close> is the value that the field text
    \<open>t\<close> gets in a column whose cells are read from \<open>col\<close> (a number when every text of
    the column is a number, the text itself in a column that holds another text).
\<close>

type_synonym tokenizer =
  "string \<Rightarrow> char \<Rightarrow> bytes \<Rightarrow> string list option list \<times> error option"

type_synonym 'a converter = "string option list \<Rightarrow> string \<Rightarrow> 'a"

text \<open>
  What pandas (version 2) does around them is modelled, function by function of its
  Python parser.

  \<open>delimiter\<close> is an alias of \<open>sep\<close>: when \<open>None\<close> is passed the parser falls back on
  \<open>sep\<close>, whose default is the comma. The detection of the delimiter by \<open>csv.Sniffer\<close>,
  which \<open>sep=None\<close> starts, is not reached by \<open>delimiter=None\<close>.
\<close>

definition refine_delimiter :: "char option \<Rightarrow> char" where
  "refine_delimiter delimiter = (case delimiter of Some d \<Rightarrow> d | None \<Rightarrow> CHR '','')"

text \<open>
  \<open>_remove_empty_lines\<close> keeps a record that has more than one field, or one field that
  \<open>str.strip\<close> does not empty. \<open>is_space\<close> is Python's white space, on code points; the
  code points of a field are read off its UTF-8 bytes.
\<close>

definition is_space :: "nat \<Rightarrow> bool" where
  "is_space n \<longleftrightarrow>
     (9 \<le> n \<and> n \<le> 13) \<or> (28 \<le> n \<and> n \<le> 32) \<or> n = 133 \<or> n = 160 \<or> n = 5760 \<or>
     (8192 \<le> n \<and> n \<le> 8202) \<or> n = 8232 \<or> n = 8233 \<or> n = 8239 \<or> n = 8287 \<or>
     n = 12288"

definition is_blank :: "string \<Rightarrow> bool" where
  "is_blank field = list_all is_space (utf8_ignore field)"

definition remove_empty_lines :: "string list list \<Rightarrow> string list list" where
  "remove_empty_lines lines =
     filter (\<lambda>line. length line > 1 \<or> (length line = 1 \<and> \<not> is_blank (hd line))) lines"

text \<open>
  \<open>_check_for_bom\<close> removes a byte order mark (U+FEFF, bytes \<open>EF BB BF\<close>) from the start
  of the first field of the first line. When a quote character follows the mark, it
  takes the text up to the next quote character, followed by what comes after that
  quote character; \<open>str.index\<close> raises \<open>ValueError\<close> when there is no next quote character.
\<close>

definition BOM :: string where
  "BOM = [CHR 0xEF, CHR 0xBB, CHR 0xBF]"

fun str_index :: "char \<Rightarrow> string \<Rightarrow> nat option" where
  "str_index q [] = None"
| "str_index q (c # cs) = (if c = q then Some 0 else map_option Suc (str_index q cs))"

definition check_for_bom :: "string list \<Rightarrow> error + string list" where
  "check_for_bom first_row =
    (case first_row of
       [] \<Rightarrow> Inr first_row
     | first_row_bom # others \<Rightarrow>
        if take 3 first_row_bom \<noteq> BOM then Inr first_row
        else (let after = drop 3 first_row_bom in
              if after \<noteq> [] \<and> hd after = CHR 0x22 then
                (case str_index (CHR 0x22) (tl after) of
                   None \<Rightarrow> Inl (ValueError ''substring not found'')
                 | Some i \<Rightarrow> Inr ((take i (tl after) @ drop (Suc i) (tl after)) # others))
              else Inr (after # others)))"

text \<open>
  \<open>_next_line\<close> reads on to the first record that the tokenizer did not reject
  (\<open>on_bad_lines="skip"\<close>) and that is not blank (\<open>skip_blank_lines\<close>); \<open>pos\<close> counts the
  records read, and the byte order mark is looked for when the record found is the first
  one read. The result is that record and the records after it. At the end of the
  records the Python function raises \<open>StopIteration\<close>, or the error that ended the
  reading.
\<close>

fun next_line ::
  "nat \<Rightarrow> string list option list \<Rightarrow> error + string list \<times> string list option list" where
  "next_line pos [] = Inl StopIteration"
| "next_line pos (None # rest) = next_line (pos + 1) rest"
| "next_line pos (Some line # rest) =
     (if remove_empty_lines [line] = [] then next_line (pos + 1) rest
      else if pos + 1 = 1 then
        (case check_for_bom line of Inl e \<Rightarrow> Inl e | Inr line' \<Rightarrow> Inr (line', rest))
      else Inr (line, rest))"

text \<open>
  \<open>_get_lines\<close> collects the remaining records that the tokenizer did not reject;
  \<open>parsed\<close> are these.
\<close>

definition parsed :: "'r option list \<Rightarrow> 'r list" where
  "parsed lines = concat (map (\<lambda>l. case l of None \<Rightarrow> [] | Some r \<Rightarrow> [r]) lines)"

text \<open>
  A field that is empty or one of the NA markers is a missing value. \<open>_rows_to_cols\<close>
  skips a record with more fields than there are columns (a bad line) and pads a record
  with fewer fields with missing values. Every other field is converted by \<open>infer\<close>,
  column by column.
\<close>

definition STR_NA_VALUES :: "string list" where
  "STR_NA_VALUES =
    ['''', ''#N/A'', ''#N/A N/A'', ''#NA'', ''-1.#IND'', ''-1.#QNAN'', ''-NaN'', ''-nan'',
     ''1.#IND'', ''1.#QNAN'', ''<NA>'', ''N/A'', ''NA'', ''NULL'', ''NaN'', ''None'',
     ''n/a'', ''nan'', ''null'']"

definition na_cell :: "string \<Rightarrow> string option" where
  "na_cell s = (if s \<in> set STR_NA_VALUES then None else Some s)"

definition to_cells :: "nat \<Rightarrow> string list \<Rightarrow> string option list" where
  "to_cells ncols line = map na_cell line @ replicate (ncols - length line) None"

definition rows_to_cols :: "nat \<Rightarrow> string list list \<Rightarrow> string option list list" where
  "rows_to_cols ncols lines =
     map (to_cells ncols) (filter (\<lambda>line. length line \<le> ncols) lines)"

definition column :: "nat \<Rightarrow> 'c list list \<Rightarrow> 'c list" where
  "column j rows = map (\<lambda>r. r ! j) rows"

definition convert_data ::
  "'a converter \<Rightarrow> nat \<Rightarrow> string option list list \<Rightarrow> 'a option list list" where
  "convert_data infer ncols rows =
     map (\<lambda>r. map (\<lambda>j. map_option (infer (column j rows)) (r ! j)) [0..<ncols]) rows"

text \<open>
  The parser as a whole (\<open>header=None\<close>): the number of columns is the number of fields
  of the first record, which is data; the columns are labelled \<open>0, 1, ...\<close>; the rows are
  numbered from 0. A file without a record raises \<open>EmptyDataError\<close>. An error of the
  tokenizer that ends the reading ends the parsing, after the first record has been
  looked at.
\<close>

definition frame_rows :: "'a converter \<Rightarrow> nat \<Rightarrow> string list list \<Rightarrow> 'a option list list" where
  "frame_rows infer ncols lines =
     convert_data infer ncols (rows_to_cols ncols (remove_empty_lines lines))"

definition read_csv ::
  "'a converter \<Rightarrow> tokenizer \<Rightarrow> string \<Rightarrow> char option \<Rightarrow> bytes \<Rightarrow> error + 'a dataframe" where
  "read_csv infer reader path delimiter content =
    (case reader path (refine_delimiter delimiter) content of
       (lines, err) \<Rightarrow>
        (case next_line 0 lines of
           Inl e \<Rightarrow>
            Inl (if e = StopIteration
                 then (case err of
                         Some e' \<Rightarrow> e'
                       | None \<Rightarrow> EmptyDataError ''No columns to parse from file'')
                 else e)
         | Inr (first, rest) \<Rightarrow>
            (case err of
               Some e \<Rightarrow> Inl e
             | None \<Rightarrow>
                (let ncols = length first;
                     rows = frame_rows infer ncols (first # parsed rest)
                 in Inr \<lparr>columns = map IntLabel [0..<ncols],
                         body = zip [0..<length rows] rows\<rparr>))))"

subsection \<open>The loader\<close>

text \<open>
  \<^verbatim>\<open>
  # FORCE CORRECT HEADERS ALWAYS
  if len(df.columns) != len(WINE_HEADERS):
      raise ValueError(
          f"Dataset has {len(df.columns)} columns but Wine dataset requires {len(WINE_HEADERS)}.")
  df.columns = WINE_HEADERS
  return df
  \<close>
  \<open>show_nat\<close> is the decimal numeral that an f-string prints for a non-negative integer.
\<close>

fun show_nat :: "nat \<Rightarrow> string" where
  "show_nat n =
     (if n < 10 then [char_of (48 + n)]
      else show_nat (n div 10) @ [char_of (48 + n mod 10)])"

definition force_headers :: "'a dataframe \<Rightarrow> error + 'a dataframe" where
  "force_headers df =
     (if length (columns df) \<noteq> length WINE_HEADERS
      then Inl (ValueError
             (''Dataset has '' @ show_nat (length (columns df)) @
              '' columns but Wine dataset requires '' @
              show_nat (length WINE_HEADERS) @ ''.''))
      else Inr (df\<lparr>columns := map StrLabel WINE_HEADERS\<rparr>))"

definition load_data_file ::
  "'a converter \<Rightarrow> tokenizer \<Rightarrow> fs \<Rightarrow> string \<Rightarrow> error + 'a dataframe" where
  "load_data_file infer reader files path =
    (case files path of
       None \<Rightarrow> Inl (FileNotFoundError 2 ''No such file or directory'' path)
     | Some content \<Rightarrow>
        (let delimiter = infer_delimiter content in
         case read_csv infer reader path delimiter content of
           Inl e \<Rightarrow> Inl e
         | Inr df \<Rightarrow> force_headers df))"

subsection \<open>A tokenizer for plain text, and sample files\<close>

text \<open>
  For a file whose name has none of the extensions above and whose content is UTF-8
  text without quote characters, the csv tokenizer yields one record per line, a line
  ending at \<open>LF\<close>, \<open>CR LF\<close> or \<open>CR\<close>; the fields are the pieces between the delimiters,
  an empty line yields the empty record, and no record is rejected. \<open>plain_reader\<close> is
  that tokenizer; it serves as the \<open>reader\<close> of the concrete runs below. \<open>utf8_valid\<close>
  tells whether a content decodes. For a content that does not, \<open>plain_reader\<close> gives the
  error and leaves out the records that come before it: on content without quote
  characters the parser above makes no use of them.

  \<open>keep_text\<close> is the conversion of a column that holds a text that is neither a number
  nor a truth value: every cell keeps its text. It serves as the \<open>infer\<close> of the concrete
  runs, on files in which every column holds such a text, or which the loader rejects.
\<close>

fun utf8_valid_from :: "nat \<Rightarrow> nat \<Rightarrow> nat \<Rightarrow> bytes \<Rightarrow> bool" where
  "utf8_valid_from k lo hi [] = (k = 0)"
| "utf8_valid_from 0 lo hi (b # bs) =
     (if (of_char b :: nat) < 128 then utf8_valid_from 0 0 0 bs
      else case lead_byte (of_char b) of
             None \<Rightarrow> False
           | Some (k, acc', lo', hi') \<Rightarrow> utf8_valid_from k lo' hi' bs)"
| "utf8_valid_from (Suc k) lo hi (b # bs) =
     (lo \<le> of_char b \<and> of_char b \<le> hi \<and> utf8_valid_from k 128 191 bs)"

definition utf8_valid :: "bytes \<Rightarrow> bool" where
  "utf8_valid bs = utf8_valid_from 0 0 0 bs"

fun split_on :: "char \<Rightarrow> string \<Rightarrow> string list" where
  "split_on d [] = [[]]"
| "split_on d (c # cs) =
     (if c = d then [] # split_on d cs
      else (case split_on d cs of [] \<Rightarrow> [[c]] | f # fs \<Rightarrow> (c # f) # fs))"

fun split_lines_from :: "bool \<Rightarrow> string \<Rightarrow> string list" where
  "split_lines_from after_cr [] = []"
| "split_lines_from after_cr (c # cs) =
     (if c = CHR 0x0A \<and> after_cr then split_lines_from False cs
      else if c = CHR 0x0A \<or> c = CHR 0x0D then [] # split_lines_from (c = CHR 0x0D) cs
      else (case split_lines_from False cs of [] \<Rightarrow> [[c]] | l # ls \<Rightarrow> (c # l) # ls))"

definition split_lines :: "string \<Rightarrow> string list" where
  "split_lines content = split_lines_from False content"

definition plain_records :: "char \<Rightarrow> bytes \<Rightarrow> string list list" where
  "plain_records d content =
     map (\<lambda>l. if l = [] then [] else split_on d l) (split_lines content)"

definition plain_reader :: tokenizer where
  "plain_reader path d content =
     (if utf8_valid content then (map Some (plain_records d content), None)
      else ([], Some UnicodeDecodeError))"

definition keep_text :: "string converter" where
  "keep_text col t = t"

fun join_fields :: "string list \<Rightarrow> string" where
  "join_fields [] = []"
| "join_fields [f] = f"
| "join_fields (f # g # fs) = f @ '','' @ join_fields (g # fs)"

definition csv_line :: "string list \<Rightarrow> string" where
  "csv_line items = join_fields items @ [CHR 0x0A]"

definition wine_row :: "string list" where
  "wine_row = [''1'', ''14.23'', ''1.71'', ''2.43'', ''15.6'', ''127'', ''2.8'', ''3.06'',
               ''.28'', ''2.29'', ''5.64'', ''1.04'', ''3.92'', ''1065'']"

text \<open>A file that starts with a header-like line, followed by one data line.\<close>

definition header_file :: bytes where
  "header_file = csv_line WINE_HEADERS @ csv_line wine_row"


text \<open>A file with fifteen fields on its line.\<close>

definition fifteen_file :: bytes where
  "fifteen_file = csv_line (wine_row @ [''0''])"




text \<open>A file with one line of 14 fields separated by spaces.\<close>

definition spaced_file :: bytes where
  "spaced_file = map (\<lambda>c. if c = CHR '','' then CHR '' '' else c) (csv_line wine_row)"

text \<open>
  A file of 1500 two-byte characters (U+00E9, bytes \<open>C3 A9\<close>) followed by a comma: the
  comma is the 1501st character and the 3001st byte.
\<close>

definition wide_file :: bytes where
  "wide_file = concat (replicate 1500 [CHR 0xC3, CHR 0xA9]) @ '',''"

section \<open>Saving\<close>

text \<open>
  \<^verbatim>\<open>
  def save_output(df, output_path):
      ext = output_path.suffix.lower()
      if ext == ".xlsx":
          try:
              df.to_excel(output_path, index=False, engine='openpyxl')
          except ImportError:
              raise ImportError(
                  "Excel export requires 'openpyxl' package.\n\n"
                  "Please install it by running:\n"
                  "pip install openpyxl\n\n"
                  "Or save the file as CSV instead.")
      elif ext == ".csv":
          df.to_csv(output_path, index=False)
      else:
          raise ValueError("Unsupported output format. Please use .xlsx or .csv")
  \<close>
  \<open>path_suffix\<close> is pathlib's \<open>suffix\<close> for a POSIX path: the name is the last component
  of the path (empty components and \<open>.\<close> components do not count); the suffix starts at
  the last dot of the name, provided that dot is neither the first nor the last character
  of the name, and is empty otherwise. \<open>lower\<close> folds the ASCII capitals.
\<close>

definition path_name :: "string \<Rightarrow> string" where
  "path_name p =
     (case rev (filter (\<lambda>s. s \<noteq> [] \<and> s \<noteq> ''.'') (split_on CHR ''/'' p)) of
        [] \<Rightarrow> []
      | n # _ \<Rightarrow> n)"

definition rfind :: "char \<Rightarrow> string \<Rightarrow> nat option" where
  "rfind c s =
     (if c \<in> set s then Some (length s - 1 - length (takeWhile (\<lambda>x. x \<noteq> c) (rev s)))
      else None)"

definition path_suffix :: "string \<Rightarrow> string" where
  "path_suffix p =
     (let name = path_name p in
      case rfind CHR ''.'' name of
        None \<Rightarrow> []
      | Some i \<Rightarrow> if 0 < i \<and> i < length name - 1 then drop i name else [])"

definition lower_char :: "char \<Rightarrow> char" where
  "lower_char c =
     (let n = (of_char c :: nat) in if 65 \<le> n \<and> n \<le> 90 then char_of (n + 32) else c)"

definition lower :: "string \<Rightarrow> string" where
  "lower s = map lower_char s"

text \<open>
  The writers of the library are parameters: whether the package \<open>openpyxl\<close> can be
  imported, the bytes of the spreadsheet and the text of the CSV file written for a
  frame. \<open>to_excel\<close> with the engine \<open>openpyxl\<close> imports the package before it opens the
  file, so a missing package raises \<open>ImportError\<close> and leaves the files as they are.
\<close>

record 'a writer =
  openpyxl_installed :: bool
  excel_bytes :: "'a dataframe \<Rightarrow> bytes"
  csv_text :: "'a dataframe \<Rightarrow> bytes"

definition to_excel :: "'a writer \<Rightarrow> 'a dataframe \<Rightarrow> string \<Rightarrow> fs \<Rightarrow> (error + unit) \<times> fs" where
  "to_excel w df path files =
     (if openpyxl_installed w then (Inr (), files(path \<mapsto> excel_bytes w df))
      else (Inl (ImportError ''No module named openpyxl''), files))"

definition to_csv :: "'a writer \<Rightarrow> 'a dataframe \<Rightarrow> string \<Rightarrow> fs \<Rightarrow> (error + unit) \<times> fs" where
  "to_csv w df path files = (Inr (), files(path \<mapsto> csv_text w df))"

definition openpyxl_message :: string where
  "openpyxl_message =
     ''Excel export requires '' @ [CHR 0x27] @ ''openpyxl'' @ [CHR 0x27] @ '' package.'' @
     [CHR 0x0A, CHR 0x0A] @
     ''Please install it by running:'' @ [CHR 0x0A] @
     ''pip install openpyxl'' @ [CHR 0x0A, CHR 0x0A] @
     ''Or save the file as CSV instead.''"

definition save_output :: "'a writer \<Rightarrow> 'a dataframe \<Rightarrow> string \<Rightarrow> fs \<Rightarrow> (error + unit) \<times> fs" where
  "save_output w df output_path files =
     (let ext = lower (path_suffix output_path) in
      if ext = ''.xlsx'' then
        (case to_excel w df output_path files of
           (Inl (ImportError m), files') \<Rightarrow> (Inl (ImportError openpyxl_message), files')
         | r \<Rightarrow> r)
      else if ext = ''.csv'' then to_csv w df output_path files
      else (Inl (ValueError ''Unsupported output format. Please use .xlsx or .csv''), files))"

text \<open>
  An environment without \<open>openpyxl\<close>. Its CSV writer prints the labels and the cells
  separated by commas, a missing cell as the empty field; its spreadsheet writer is never
  reached.
\<close>

definition label_text :: "label \<Rightarrow> string" where
  "label_text l = (case l of IntLabel n \<Rightarrow> show_nat n | StrLabel s \<Rightarrow> s)"

definition plain_csv :: "string dataframe \<Rightarrow> bytes" where
  "plain_csv df =
     csv_line (map label_text (columns df)) @
     concat (map (\<lambda>r. csv_line (map (case_option [] id) r)) (cells df))"

definition no_openpyxl :: "string writer" where
  "no_openpyxl = \<lparr>openpyxl_installed = False, excel_bytes = (\<lambda>df. []), csv_text = plain_csv\<rparr>"

section \<open>Reading back a saved file\<close>






section \<open>Facts about the cleaning steps\<close>

lemma length_fill_row [simp]: "length (fill_row prev r) = length r"
  by (induction prev r rule: fill_row.induct) auto

lemma length_ffill_from [simp]: "length (ffill_from prev rs) = length rs"
  by (induction rs arbitrary: prev) auto

lemma first_rows_subset: "set (first_rows seen b) \<subseteq> set b"
  by (induction seen b rule: first_rows.induct) auto

lemma fill_row_Nil2 [simp]: "fill_row ps [] = []"
  by (cases ps) auto

lemma fill_row_idem [simp]: "fill_row p (fill_row p r) = fill_row p r"
  by (induction p r rule: fill_row.induct) (auto split: option.splits)

lemma fill_row_fixed_iff:
  "length p = length r \<Longrightarrow> fill_row p r = r \<longleftrightarrow> (\<forall>j<length r. r ! j = None \<longrightarrow> p ! j = None)"
proof (induction p r rule: list_induct2)
  case Nil
  then show ?case by simp
next
  case (Cons x xs y ys)
  then show ?case
    by (auto simp: nth_Cons All_less_Suc2 split: option.splits nat.splits)
qed

lemma fill_row_trans:
  assumes "length p = length q" "length q = length r"
    and "fill_row p q = q" "fill_row q r = r"
  shows "fill_row p r = r"
  using assms by (simp add: fill_row_fixed_iff)

lemma map_length_ffill_from [simp]: "map length (ffill_from prev rs) = map length rs"
  by (induction rs arbitrary: prev) auto

lemma set_ffill_from_length:
  "y \<in> set (ffill_from prev rs) \<Longrightarrow> \<forall>r\<in>set rs. length r = n \<Longrightarrow> length y = n"
proof -
  assume y: "y \<in> set (ffill_from prev rs)" and n: "\<forall>r\<in>set rs. length r = n"
  have "length y \<in> set (map length (ffill_from prev rs))" using y by (simp del: map_length_ffill_from)
  then show ?thesis using n by auto
qed

lemma ffill_from_fixed_prev:
  assumes "\<forall>r\<in>set rs. length r = length prev"
  shows "\<forall>y\<in>set (ffill_from prev rs). fill_row prev y = y"
  using assms
proof (induction rs arbitrary: prev)
  case Nil
  then show ?case by simp
next
  case (Cons r rs)
  let ?r' = "fill_row prev r"
  have len: "\<forall>x\<in>set rs. length x = length ?r'" using Cons.prems by simp
  have ih: "\<forall>y\<in>set (ffill_from ?r' rs). fill_row ?r' y = y"
    using Cons.IH [OF len] .
  have leny: "\<forall>y\<in>set (ffill_from ?r' rs). length y = length prev"
    using Cons.prems by (auto dest: set_ffill_from_length [where n = "length prev"])
  show ?case
  proof (simp, intro ballI)
    fix y assume y: "y \<in> set (ffill_from ?r' rs)"
    show "fill_row prev y = y"
      by (rule fill_row_trans [of prev ?r' y]) (use y ih leny Cons.prems in auto)
  qed
qed

lemma ffill_from_chain:
  assumes "\<forall>r\<in>set rs. length r = n"
  shows "sorted_wrt (\<lambda>p r. fill_row p r = r) (ffill_from prev rs)"
  using assms
proof (induction rs arbitrary: prev)
  case Nil
  then show ?case by simp
next
  case (Cons r rs)
  have "\<forall>x\<in>set rs. length x = length (fill_row prev r)" using Cons.prems by simp
  from ffill_from_fixed_prev [OF this] Cons show ?case by simp
qed

lemma ffill_from_fixed:
  assumes "sorted_wrt (\<lambda>p r. fill_row p r = r) rs" "\<forall>r\<in>set rs. fill_row prev r = r"
  shows "ffill_from prev rs = rs"
  using assms by (induction rs arbitrary: prev) auto

lemma first_rows_chain:
  "sorted_wrt P (map snd b) \<Longrightarrow> sorted_wrt P (map snd (first_rows seen b))"
proof (induction seen b rule: first_rows.induct)
  case (1 seen)
  then show ?case by simp
next
  case (2 seen i r rest)
  then show ?case using first_rows_subset [of "r # seen" rest] by auto
qed

lemma first_rows_distinct_id:
  "distinct (map snd b) \<Longrightarrow> set (map snd b) \<inter> set seen = {} \<Longrightarrow> first_rows seen b = b"
  by (induction seen b rule: first_rows.induct) auto

lemma map_snd_zip_upt [simp]: "map snd (zip [0..<length xs] xs) = xs"
  by (simp add: map_snd_zip)

lemma cells_clean_df:
  "cells (clean_df df) = ffill_from [] (map snd (first_rows [] (body df)))"
  by (simp add: cells_def clean_df_def ffill_def reset_index_def drop_duplicates_def map_snd_zip)

lemma body_clean_df:
  "body (clean_df df) = zip [0..<length (first_rows [] (body df))] (ffill_from [] (map snd (first_rows [] (body df))))"
  by (simp add: clean_df_def ffill_def reset_index_def drop_duplicates_def map_snd_zip map_fst_zip)

lemma clean_df_again:
  assumes "rectangular df"
  shows "clean_df (clean_df df) = reset_index (drop_duplicates (clean_df df))"
proof -
  let ?n = "length (columns df)"
  let ?D = "map snd (first_rows [] (body df))"
  let ?C = "clean_df df"
  have lenD: "\<forall>r\<in>set ?D. length r = ?n"
    using assms first_rows_subset [of "[]" "body df"]
    by (auto simp: rectangular_def cells_def list_all_iff)
  have chainC: "sorted_wrt (\<lambda>p r. fill_row p r = r) (map snd (body ?C))"
    using ffill_from_chain [OF lenD, of "[]"] cells_clean_df [of df] by (simp add: cells_def)
  let ?E = "map snd (first_rows [] (body ?C))"
  have chainE: "sorted_wrt (\<lambda>p r. fill_row p r = r) ?E"
    by (rule first_rows_chain [OF chainC])
  have fixed: "ffill_from [] ?E = ?E"
    by (rule ffill_from_fixed [OF chainE]) simp
  have "body (ffill (reset_index (drop_duplicates ?C))) = body (reset_index (drop_duplicates ?C))"
    using fixed by (simp add: ffill_def reset_index_def drop_duplicates_def map_snd_zip map_fst_zip)
  then show ?thesis
    by (simp add: clean_df_def [of ?C] ffill_def)
qed

lemma clean_df_idem_distinct:
  assumes "rectangular df" "distinct (cells (clean_df df))"
  shows "clean_df (clean_df df) = clean_df df"
proof -
  have "first_rows [] (body (clean_df df)) = body (clean_df df)"
    using assms(2) by (intro first_rows_distinct_id) (simp_all add: cells_def)
  then have "reset_index (drop_duplicates (clean_df df)) = clean_df df"
    by (simp add: reset_index_def drop_duplicates_def body_clean_df map_snd_zip)
  then show ?thesis using clean_df_again [OF assms(1)] by simp
qed


lemma fill_row_nth:
  "j < length r \<Longrightarrow>
   fill_row prev r ! j =
     (case r ! j of Some v \<Rightarrow> Some v | None \<Rightarrow> if j < length prev then prev ! j else None)"
proof (induction prev r arbitrary: j rule: fill_row.induct)
  case (1 p ps c cs)
  then show ?case by (cases j) (auto split: option.splits)
next
  case (2 cs)
  then show ?case by (auto split: option.splits)
next
  case (3 ps)
  then show ?case by simp
qed

lemma ffill_from_nth_None:
  assumes "\<forall>r\<in>set rs. length r = n" "i < length rs" "j < n"
    and "ffill_from prev rs ! i ! j = None"
  shows "(\<forall>k\<le>i. rs ! k ! j = None) \<and> (j < length prev \<longrightarrow> prev ! j = None)"
  using assms
proof (induction rs arbitrary: prev i)
  case Nil
  then show ?case by simp
next
  case (Cons r rs)
  have jr: "j < length r" using Cons.prems by simp
  show ?case
  proof (cases i)
    case 0
    then show ?thesis using Cons.prems jr
      by (auto simp: fill_row_nth split: option.splits if_splits)
  next
    case (Suc i')
    have "(\<forall>k\<le>i'. rs ! k ! j = None) \<and> (j < length (fill_row prev r) \<longrightarrow> fill_row prev r ! j = None)"
      using Cons.IH [of i' "fill_row prev r"] Cons.prems Suc by simp
    then show ?thesis using Suc jr
      by (auto simp: fill_row_nth nth_Cons split: option.splits if_splits nat.splits)
  qed
qed

lemma ffill_from_nth_carry:
  assumes "\<forall>r\<in>set rs. length r = n" "i < length rs" "j < n" "j < length prev"
    and "\<forall>m\<le>i. rs ! m ! j = None"
  shows "ffill_from prev rs ! i ! j = prev ! j"
  using assms
proof (induction rs arbitrary: prev i)
  case Nil
  then show ?case by simp
next
  case (Cons r rs)
  have jr: "j < length r" using Cons.prems by simp
  have r0: "r ! j = None" using Cons.prems(5) by (auto dest: spec [of _ 0])
  show ?case
  proof (cases i)
    case 0
    then show ?thesis using Cons.prems jr r0 by (simp add: fill_row_nth)
  next
    case (Suc i')
    have "\<forall>m\<le>i'. rs ! m ! j = None"
    proof (intro allI impI)
      fix m assume "m \<le> i'"
      then have "(r # rs) ! Suc m ! j = None" using Cons.prems(5) Suc by blast
      then show "rs ! m ! j = None" by simp
    qed
    then have "ffill_from (fill_row prev r) rs ! i' ! j = fill_row prev r ! j"
      using Cons.IH [of i' "fill_row prev r"] Cons.prems Suc jr by simp
    then show ?thesis using Suc jr r0 Cons.prems(4) by (simp add: fill_row_nth)
  qed
qed

lemma ffill_from_nth_Some:
  assumes "\<forall>r\<in>set rs. length r = n" "i < length rs" "j < n" "k \<le> i"
    and "rs ! k ! j = Some x" "\<forall>m. k < m \<and> m \<le> i \<longrightarrow> rs ! m ! j = None"
  shows "ffill_from prev rs ! i ! j = Some x"
  using assms
proof (induction rs arbitrary: prev i k)
  case Nil
  then show ?case by simp
next
  case (Cons r rs)
  have jr: "j < length r" using Cons.prems by simp
  show ?case
  proof (cases i)
    case 0
    then show ?thesis using Cons.prems jr by (simp add: fill_row_nth)
  next
    case (Suc i')
    show ?thesis
    proof (cases k)
      case 0
      have rj: "r ! j = Some x" using Cons.prems(5) 0 by simp
      have "\<forall>m\<le>i'. rs ! m ! j = None"
      proof (intro allI impI)
        fix m assume "m \<le> i'"
        then have "(r # rs) ! Suc m ! j = None" using Cons.prems(6) Suc 0 by auto
        then show "rs ! m ! j = None" by simp
      qed
      then have "ffill_from (fill_row prev r) rs ! i' ! j = fill_row prev r ! j"
        using ffill_from_nth_carry [of rs n i' j "fill_row prev r"] Cons.prems Suc jr by simp
      then show ?thesis using Suc jr rj by (simp add: fill_row_nth)
    next
      case (Suc k')
      have "\<forall>m. k' < m \<and> m \<le> i' \<longrightarrow> rs ! m ! j = None"
      proof (intro allI impI)
        fix m assume "k' < m \<and> m \<le> i'"
        then have "(r # rs) ! Suc m ! j = None" using Cons.prems(6) Suc \<open>i = Suc i'\<close> by auto
        then show "rs ! m ! j = None" by simp
      qed
      then show ?thesis
        using Cons.IH [of i' k' "fill_row prev r"] Cons.prems Suc \<open>i = Suc i'\<close> by simp
    qed
  qed
qed

lemma ffill_from_keeps:
  assumes "i < length rs" "j < length (rs ! i)" "rs ! i ! j = Some v"
  shows "ffill_from prev rs ! i ! j = Some v"
  using assms
proof (induction rs arbitrary: prev i)
  case Nil
  then show ?case by simp
next
  case (Cons r rs)
  then show ?case by (cases i) (auto simp: fill_row_nth)
qed

lemma ffill_from_row_length:
  "i < length rs \<Longrightarrow> length (ffill_from prev rs ! i) = length (rs ! i)"
proof (induction rs arbitrary: prev i)
  case Nil
  then show ?case by simp
next
  case (Cons r rs)
  then show ?case by (cases i) auto
qed

lemma first_rows_positions:
  "first_rows seen b =
     map (\<lambda>i. b ! i)
       (filter (\<lambda>i. snd (b ! i) \<notin> set seen \<and> (\<forall>k<i. snd (b ! k) \<noteq> snd (b ! i))) [0..<length b])"
proof (induction seen b rule: first_rows.induct)
  case (1 seen)
  then show ?case by simp
next
  case (2 seen i r rest)
  let ?b = "(i, r) # rest"
  let ?P = "\<lambda>s b i. snd (b ! i) \<notin> set s \<and> (\<forall>k<i. snd (b ! k) \<noteq> snd (b ! i))"
  have upt: "[0..<length ?b] = 0 # map Suc [0..<length rest]"
    by (simp add: upt_conv_Cons map_Suc_upt del: upt_Suc)
  have tail: "map (\<lambda>i. ?b ! i) (filter (?P seen ?b) (map Suc [0..<length rest]))
      = map (\<lambda>i. rest ! i) (filter (\<lambda>i. ?P seen ?b (Suc i)) [0..<length rest])"
    by (simp add: filter_map comp_def)
  have shift: "?P seen ?b (Suc m) \<longleftrightarrow> snd (rest ! m) \<noteq> r \<and> ?P seen rest m" for m
    by (auto simp: All_less_Suc2)
  show ?case
  proof (cases "r \<in> set seen")
    case True
    have "filter (\<lambda>i. ?P seen ?b (Suc i)) [0..<length rest] = filter (?P seen rest) [0..<length rest]"
      by (rule filter_cong) (use True shift in auto)
    then show ?thesis using True 2 upt tail by simp
  next
    case False
    have "filter (\<lambda>i. ?P seen ?b (Suc i)) [0..<length rest] = filter (?P (r # seen) rest) [0..<length rest]"
      by (rule filter_cong) (use shift in auto)
    then show ?thesis using False 2 upt tail by simp
  qed
qed

section \<open>Facts about the loader\<close>

subsection \<open>Decoding\<close>

lemma utf8_ignore_from_ascii:
  "\<forall>b\<in>set bs. (of_char b :: nat) < 128 \<Longrightarrow> utf8_ignore_from 0 a l h bs = map of_char bs"
  by (induction bs arbitrary: a l h) auto

lemma utf8_ignore_ascii:
  "\<forall>b\<in>set bs. (of_char b :: nat) < 128 \<Longrightarrow> utf8_ignore bs = map of_char bs"
  by (simp add: utf8_ignore_def utf8_ignore_from_ascii)

lemma utf8_ignore_e_acute:
  "utf8_ignore_from 0 a l h (CHR 0xC3 # CHR 0xA9 # bs) = 233 # utf8_ignore_from 0 0 0 0 bs"
  by (simp add: lead_byte_def)

lemma utf8_ignore_e_acutes:
  "utf8_ignore_from 0 0 0 0 (concat (replicate n [CHR 0xC3, CHR 0xA9]) @ bs) =
     replicate n 233 @ utf8_ignore_from 0 0 0 0 bs"
  by (induction n) (simp_all add: utf8_ignore_e_acute del: utf8_ignore_from.simps)

lemma universal_newlines_no_cr: "13 \<notin> set cs \<Longrightarrow> universal_newlines cs = cs"
  by (induction cs rule: universal_newlines.induct) auto

lemma sample_of_ascii:
  assumes "\<forall>b\<in>set content. (of_char b :: nat) < 128 \<and> b \<noteq> CHR 0x0D"
  shows "sample_of content = map of_char (take 2048 content)"
proof -
  have "(13::nat) \<notin> set (map of_char content)"
  proof
    assume "(13::nat) \<in> set (map of_char content)"
    then obtain b where b: "b \<in> set content" "(of_char b :: nat) = 13" by auto
    have "(of_char b :: nat) = of_char CHR 0x0D" using b(2) by simp
    then have "b = CHR 0x0D" by (simp only: of_char_eq_iff)
    with assms b(1) show False by blast
  qed
  then show ?thesis
    using assms by (simp add: sample_of_def read_text_def utf8_ignore_ascii universal_newlines_no_cr take_map)
qed

lemma read_text_wide_file: "read_text wide_file = replicate 1500 233 @ [44]"
proof -
  have "utf8_ignore wide_file = replicate 1500 233 @ [44]"
    unfolding wide_file_def utf8_ignore_def utf8_ignore_e_acutes by simp
  moreover have "13 \<notin> set (replicate 1500 233 @ [44::nat])" by simp
  ultimately show ?thesis by (simp add: read_text_def universal_newlines_no_cr)
qed

lemma infer_delimiter_ascii:
  assumes "\<forall>b\<in>set content. (of_char b :: nat) < 128 \<and> b \<noteq> CHR 0x0D"
  shows "infer_delimiter content =
           (if CHR '','' \<in> set (take 2048 content) then Some CHR '','' else None)"
proof -
  have "(44::nat) \<in> set (map of_char (take 2048 content)) \<longleftrightarrow>
          CHR '','' \<in> set (take 2048 content)"
  proof
    assume "(44::nat) \<in> set (map of_char (take 2048 content))"
    then obtain b where b: "b \<in> set (take 2048 content)" "(of_char b :: nat) = 44" by auto
    have "(of_char b :: nat) = of_char CHR '',''" using b(2) by simp
    then have "b = CHR '',''" by (simp only: of_char_eq_iff)
    with b(1) show "CHR '','' \<in> set (take 2048 content)" by simp
  next
    assume "CHR '','' \<in> set (take 2048 content)"
    then have "(of_char CHR '','' :: nat) \<in> of_char ` set (take 2048 content)" by (rule imageI)
    then show "(44::nat) \<in> set (map of_char (take 2048 content))" by simp
  qed
  then show ?thesis
    by (simp add: infer_delimiter_def sample_of_ascii [OF assms])
qed

lemma sample_of_wide_file: "44 \<in> set (sample_of wide_file)"
  by (simp add: sample_of_def read_text_wide_file)

subsection \<open>From the records to the frame\<close>

lemma length_WINE_HEADERS: "length WINE_HEADERS = 14"
  by (simp add: WINE_HEADERS_def)

lemma show_nat_14: "show_nat 14 = ''14''"
  by code_simp

lemma refine_infer_delimiter: "refine_delimiter (infer_delimiter content) = CHR '',''"
  by (simp add: refine_delimiter_def infer_delimiter_def)

lemma length_to_cells: "length line \<le> n \<Longrightarrow> length (to_cells n line) = n"
  by (simp add: to_cells_def)

lemma length_convert_data: "length (convert_data infer n rows) = length rows"
  by (simp add: convert_data_def)







lemma read_csv_lines:
  assumes "reader path CHR '','' content = (lines, None)"
    and "next_line 0 lines = Inr (first, rest)"
  shows "read_csv infer reader path (infer_delimiter content) content =
     Inr \<lparr>columns = map IntLabel [0..<length first],
          body = zip [0..<length (frame_rows infer (length first) (first # parsed rest))]
                   (frame_rows infer (length first) (first # parsed rest))\<rparr>"
  using assms by (simp add: read_csv_def refine_infer_delimiter Let_def)

lemma read_csv_error:
  assumes "reader path CHR '','' content = (lines, Some e)"
    and "next_line 0 lines = Inr (first, rest)"
  shows "read_csv infer reader path (infer_delimiter content) content = Inl e"
  using assms by (simp add: read_csv_def refine_infer_delimiter)

lemma load_data_file_lines:
  assumes "files path = Some content"
    and "reader path CHR '','' content = (lines, None)"
    and "next_line 0 lines = Inr (first, rest)"
  shows "load_data_file infer reader files path =
     (if length first \<noteq> 14
      then Inl (ValueError (''Dataset has '' @ show_nat (length first) @
                  '' columns but Wine dataset requires 14.''))
      else Inr \<lparr>columns = map StrLabel WINE_HEADERS,
                body = zip [0..<length (frame_rows infer 14 (first # parsed rest))]
                         (frame_rows infer 14 (first # parsed rest))\<rparr>)"
proof -
  note rc = read_csv_lines [where reader = reader and infer = infer, OF assms(2,3)]
  show ?thesis
  proof (cases "length first = 14")
    case True
    then show ?thesis
      using assms(1) rc
      by (simp add: load_data_file_def force_headers_def Let_def length_WINE_HEADERS)
  next
    case False
    then show ?thesis
      using assms(1) rc
      by (simp add: load_data_file_def force_headers_def Let_def length_WINE_HEADERS show_nat_14
          del: show_nat.simps)
  qed
qed

lemma load_data_file_error:
  assumes "files path = Some content"
    and "reader path CHR '','' content = (lines, Some e)"
    and "next_line 0 lines = Inr (first, rest)"
  shows "load_data_file infer reader files path = Inl e"
  using assms(1) read_csv_error [where reader = reader and infer = infer, OF assms(2,3)]
  by (simp add: load_data_file_def)



subsection \<open>The sample files\<close>

lemma header_file_plain: "\<forall>b\<in>set header_file. (of_char b :: nat) < 128 \<and> b \<noteq> CHR 0x0D"
  by code_simp

section \<open>Facts about the round trip\<close>

subsection \<open>Splitting what was joined\<close>









subsection \<open>Cells and fields\<close>













subsection \<open>The saved file\<close>


section \<open>Properties of the cleaner\<close>

lemma rect_sample: "rectangular sample_table"
  by (simp add: rectangular_def cells_def sample_table_def WINE_HEADERS_def)

lemma cells_dd_sample:
  "cells (drop_duplicates sample_table) =
     [Some ''1'' # replicate 13 (Some ''0''), None # replicate 13 (Some ''5'')]"
  by (simp add: cells_def drop_duplicates_def sample_table_def)

lemma cells_clean_sample:
  "cells (clean_df sample_table) =
     [Some ''1'' # replicate 13 (Some ''0''), Some ''1'' # replicate 13 (Some ''5'')]"
  by (simp add: cells_clean_df sample_table_def eval_nat_numeral)

text \<open>
  Claim C3 says that cleaning is idempotent. It is not: the duplicates are dropped before
  the gaps are filled, so filling can make two rows equal that were different when the
  duplicates were dropped, and a second cleaning drops one of them. In \<open>gap_table\<close> the
  second row differs from the first only by a missing first value; one cleaning returns
  two equal rows, a second cleaning returns one.
\<close>

theorem clean_df_idempotent_counterexample:
  "clean_df (clean_df gap_table) \<noteq> clean_df gap_table"
  by (simp add: gap_table_def clean_df_def ffill_def reset_index_def drop_duplicates_def
      eval_nat_numeral)

text \<open>
  Claim C3, amended: for every table with one cell per column, cleaning a cleaned table
  only drops the duplicate rows that the first filling produced (and renumbers the rows);
  so \<open>clean_df (clean_df T) = clean_df T\<close> whenever the rows of \<open>clean_df T\<close> are
  pairwise different.
\<close>

theorem clean_df_twice:
  assumes "rectangular T"
  shows "clean_df (clean_df T) = reset_index (drop_duplicates (clean_df T)) \<and>
         (distinct (cells (clean_df T)) \<longrightarrow> clean_df (clean_df T) = clean_df T)"
  using clean_df_again [OF assms] clean_df_idem_distinct [OF assms] by simp

theorem clean_df_twice_witness:
  "rectangular sample_table \<and> distinct (cells (clean_df sample_table)) \<and>
   clean_df (clean_df sample_table) = clean_df sample_table"
proof -
  have d: "distinct (cells (clean_df sample_table))"
    by (simp add: cells_clean_sample)
  from clean_df_twice [OF rect_sample] d
  have "clean_df (clean_df sample_table) = clean_df sample_table" by blast
  with d rect_sample show ?thesis by blast
qed

text \<open>
  Claim C4 (forward-fill postcondition): in a table with one cell per column, a cell of
  the cleaned table is missing only if the cell and every cell above it in its column
  were missing in the deduplicated table; and a cell whose nearest non-missing cell at or
  above it in the deduplicated table holds \<open>x\<close> holds \<open>x\<close> after cleaning. In particular
  a missing cell directly below a cell holding \<open>x\<close> becomes \<open>x\<close>.
\<close>

theorem forward_fill_post:
  assumes "rectangular T" "i < length (cells (clean_df T))" "j < length (columns T)"
  shows "(cells (clean_df T) ! i ! j = None \<longrightarrow>
            (\<forall>k\<le>i. cells (drop_duplicates T) ! k ! j = None)) \<and>
         (\<forall>k x. k \<le> i \<and> cells (drop_duplicates T) ! k ! j = Some x \<and>
                (\<forall>m. k < m \<and> m \<le> i \<longrightarrow> cells (drop_duplicates T) ! m ! j = None) \<longrightarrow>
                cells (clean_df T) ! i ! j = Some x)"
proof -
  let ?D = "cells (drop_duplicates T)"
  let ?n = "length (columns T)"
  have C: "cells (clean_df T) = ffill_from [] ?D"
    unfolding cells_clean_df by (simp add: cells_def drop_duplicates_def)
  have lenD: "\<forall>r\<in>set ?D. length r = ?n"
    using assms(1) first_rows_subset [of "[]" "body T"]
    by (auto simp: rectangular_def cells_def drop_duplicates_def list_all_iff)
  have i: "i < length ?D" using assms(2) C by simp
  have "cells (clean_df T) ! i ! j = None \<Longrightarrow> \<forall>k\<le>i. ?D ! k ! j = None"
    using ffill_from_nth_None [OF lenD i assms(3), of "[]"] C by simp
  moreover have "cells (clean_df T) ! i ! j = Some x"
    if "k \<le> i" "?D ! k ! j = Some x" "\<forall>m. k < m \<and> m \<le> i \<longrightarrow> ?D ! m ! j = None" for k x
    using ffill_from_nth_Some [OF lenD i assms(3) that, of "[]"] C by simp
  ultimately show ?thesis by blast
qed

theorem forward_fill_post_witness:
  "rectangular sample_table \<and>
   cells (drop_duplicates sample_table) ! 0 ! 0 = Some ''1'' \<and>
   cells (drop_duplicates sample_table) ! 1 ! 0 = None \<and>
   cells (clean_df sample_table) ! 1 ! 0 = Some ''1''"
proof -
  have i: "1 < length (cells (clean_df sample_table))" by (simp add: cells_clean_sample)
  have j: "0 < length (columns sample_table)" by (simp add: sample_table_def WINE_HEADERS_def)
  have a: "cells (drop_duplicates sample_table) ! 0 ! 0 = Some ''1''"
    and b: "cells (drop_duplicates sample_table) ! 1 ! 0 = None"
    by (simp_all add: cells_dd_sample)
  have "\<forall>m. 0 < m \<and> m \<le> 1 \<longrightarrow> cells (drop_duplicates sample_table) ! m ! 0 = None"
    using b by (auto simp: le_Suc_eq)
  with forward_fill_post [OF rect_sample i j] a
  have "cells (clean_df sample_table) ! 1 ! 0 = Some ''1''" by blast
  with rect_sample a b show ?thesis by simp
qed

text \<open>
  Claim C10 (order preservation): the rows kept by \<open>drop_duplicates\<close> are the rows of
  the table at the positions whose cells occur at no earlier position, in increasing
  position; the cleaned table has as many rows as the deduplicated one, numbered from 0,
  every row keeps its length, and every cell that was not missing is unchanged.
\<close>

theorem clean_df_order:
  "body (drop_duplicates T) =
     map (\<lambda>i. body T ! i)
       (filter (\<lambda>i. \<forall>k<i. snd (body T ! k) \<noteq> snd (body T ! i)) [0..<length (body T)]) \<and>
   index (clean_df T) = [0..<length (body (drop_duplicates T))] \<and>
   length (cells (clean_df T)) = length (cells (drop_duplicates T)) \<and>
   (\<forall>i<length (cells (drop_duplicates T)).
      length (cells (clean_df T) ! i) = length (cells (drop_duplicates T) ! i) \<and>
      (\<forall>j<length (cells (drop_duplicates T) ! i).
         cells (drop_duplicates T) ! i ! j \<noteq> None \<longrightarrow>
         cells (clean_df T) ! i ! j = cells (drop_duplicates T) ! i ! j))"
proof -
  let ?D = "cells (drop_duplicates T)"
  have C: "cells (clean_df T) = ffill_from [] ?D"
    unfolding cells_clean_df by (simp add: cells_def drop_duplicates_def)
  have 1: "body (drop_duplicates T) =
     map (\<lambda>i. body T ! i)
       (filter (\<lambda>i. \<forall>k<i. snd (body T ! k) \<noteq> snd (body T ! i)) [0..<length (body T)])"
    using first_rows_positions [of "[]" "body T"] by (simp add: drop_duplicates_def)
  have 2: "index (clean_df T) = [0..<length (body (drop_duplicates T))]"
    by (simp add: index_def body_clean_df drop_duplicates_def)
  have 3: "length (cells (clean_df T)) = length ?D" using C by simp
  have 4: "length (cells (clean_df T) ! i) = length (?D ! i)" if "i < length ?D" for i
    using that C by (simp add: ffill_from_row_length)
  have 5: "cells (clean_df T) ! i ! j = ?D ! i ! j"
    if "i < length ?D" "j < length (?D ! i)" "?D ! i ! j \<noteq> None" for i j
    using that C ffill_from_keeps [of i ?D j _ "[]"] by auto
  show ?thesis using 1 2 3 4 5 by blast
qed

theorem clean_df_order_witness:
  "body (drop_duplicates sample_table) = [body sample_table ! 0, body sample_table ! 2] \<and>
   index (clean_df sample_table) = [0, 1] \<and>
   length (cells (clean_df sample_table)) = 2 \<and>
   cells (clean_df sample_table) ! 1 ! 1 = Some ''5''"
proof -
  have f: "filter (\<lambda>i. \<forall>k<i. snd (body sample_table ! k) \<noteq> snd (body sample_table ! i))
             [0..<length (body sample_table)] = [0, 2]"
    by (simp add: sample_table_def upt_rec [of 0] upt_rec [of 1] upt_rec [of 2] All_less_Suc eval_nat_numeral)
  have d: "cells (drop_duplicates sample_table) ! 1 ! 1 = Some ''5''"
    by (simp add: cells_dd_sample eval_nat_numeral)
  have l: "length (cells (drop_duplicates sample_table)) = 2" "1 < length (cells (drop_duplicates sample_table) ! 1)"
    by (simp_all add: cells_dd_sample)
  from clean_df_order [of sample_table] f d l show ?thesis
    by (auto simp: cells_def)
qed

section \<open>Properties of the loader\<close>

text \<open>
  In the theorems below the file at \<open>path\<close> holds \<open>content\<close>, the tokenizer yields the
  records \<open>lines\<close> for it at commas, and \<open>first\<close> is the first record that is neither
  rejected nor blank, \<open>rest\<close> being the records after it: the number of the fields of
  \<open>first\<close> is the parsed column count.
\<close>



text \<open>
  Claim C2: for every input that is read to its end and whose parsed column count
  differs from 14, the loader fails with the \<open>ValueError\<close> of the schema check, and the
  message carries the parsed count and 14.
\<close>

theorem load_schema_mismatch:
  assumes "files path = Some content"
    and "reader path CHR '','' content = (lines, None)"
    and "next_line 0 lines = Inr (first, rest)"
    and "length first \<noteq> 14"
  shows "load_data_file infer reader files path =
           Inl (ValueError (''Dataset has '' @ show_nat (length first) @
                  '' columns but Wine dataset requires '' @ show_nat 14 @ ''.''))"
  using load_data_file_lines [where files = files and path = path and reader = reader
      and infer = infer, OF assms(1,2,3)] assms(4)
  by (simp add: show_nat_14 del: show_nat.simps)

text \<open>
  A file with fifteen comma-separated fields fails with a message stating 15 and 14.
\<close>

theorem load_schema_mismatch_witness:
  "load_data_file keep_text plain_reader [''wine.data'' \<mapsto> fifteen_file] ''wine.data'' =
     Inl (ValueError ''Dataset has 15 columns but Wine dataset requires 14.'')"
proof -
  have f: "[''wine.data'' \<mapsto> fifteen_file] ''wine.data'' = Some fifteen_file" by simp
  have r: "plain_reader ''wine.data'' CHR '','' fifteen_file = ([Some (wine_row @ [''0''])], None)"
    by code_simp
  have n: "next_line 0 [Some (wine_row @ [''0''])] = Inr (wine_row @ [''0''], [])"
    by code_simp
  have l: "length (wine_row @ [''0'']) = 15" by (simp add: wine_row_def)
  have s: "show_nat 15 = ''15''" by code_simp
  have "length (wine_row @ [''0'']) \<noteq> 14" using l by simp
  from load_schema_mismatch [where files = "[''wine.data'' \<mapsto> fifteen_file]"
      and path = "''wine.data''" and reader = plain_reader and infer = keep_text,
      OF f r n this]
  show ?thesis
    unfolding l s show_nat_14 by simp
qed




text \<open>
  Claim C9 says that the sample is the first 2048 bytes of the file, and that a file
  without a comma in the sample is read with an automatic detection of the delimiter.
  The loader decodes the whole file and takes the first 2048 characters: in \<open>wide_file\<close>
  no comma is among the first 2048 bytes, yet the loader finds the comma (the 1501st
  character) and chooses it as the delimiter. And no delimiter is detected: for
  \<open>spaced_file\<close>, whose line splits at its spaces into 14 fields, the loader passes no
  delimiter and the file is parsed at commas into a single column, which the schema
  check rejects.
\<close>

theorem sample_in_characters_counterexample:
  "(CHR '','' \<notin> set (take 2048 wide_file) \<and> infer_delimiter wide_file = Some CHR '','') \<and>
   (infer_delimiter spaced_file = None \<and>
    plain_records CHR '' '' spaced_file = [wine_row] \<and>
    load_data_file keep_text plain_reader [''wine.data'' \<mapsto> spaced_file] ''wine.data'' =
      Inl (ValueError ''Dataset has 1 columns but Wine dataset requires 14.''))"
proof -
  let ?es = "concat (replicate 1500 [CHR 0xC3, CHR 0xA9])"
  have "take 2048 wide_file = take 2048 ?es"
    by (simp add: wide_file_def length_concat sum_list_replicate)
  moreover have "set (take 2048 ?es) \<subseteq> set ?es" by (rule set_take_subset)
  moreover have "set ?es \<subseteq> {CHR 0xC3, CHR 0xA9}" by auto
  ultimately have "CHR '','' \<notin> set (take 2048 wide_file)" by auto
  then have 1: "CHR '','' \<notin> set (take 2048 wide_file) \<and> infer_delimiter wide_file = Some CHR '',''"
    using sample_of_wide_file by (simp add: infer_delimiter_def)
  have a: "\<forall>b\<in>set spaced_file. (of_char b :: nat) < 128 \<and> b \<noteq> CHR 0x0D" by code_simp
  have "CHR '','' \<notin> set (take 2048 spaced_file)" by code_simp
  then have 2: "infer_delimiter spaced_file = None"
    by (simp add: infer_delimiter_ascii [OF a])
  have 3: "plain_records CHR '' '' spaced_file = [wine_row]" by code_simp
  have f: "[''wine.data'' \<mapsto> spaced_file] ''wine.data'' = Some spaced_file" by simp
  have r: "plain_reader ''wine.data'' CHR '','' spaced_file =
             ([Some [''1 14.23 1.71 2.43 15.6 127 2.8 3.06 .28 2.29 5.64 1.04 3.92 1065'']], None)"
    by code_simp
  have n: "next_line 0 [Some [''1 14.23 1.71 2.43 15.6 127 2.8 3.06 .28 2.29 5.64 1.04 3.92 1065'']] =
             Inr ([''1 14.23 1.71 2.43 15.6 127 2.8 3.06 .28 2.29 5.64 1.04 3.92 1065''], [])"
    by code_simp
  have one: "show_nat 1 = ''1''" by code_simp
  have 4: "load_data_file keep_text plain_reader [''wine.data'' \<mapsto> spaced_file] ''wine.data'' =
      Inl (ValueError ''Dataset has 1 columns but Wine dataset requires 14.'')"
    using load_data_file_lines [where files = "[''wine.data'' \<mapsto> spaced_file]"
        and path = "''wine.data''" and reader = plain_reader and infer = keep_text, OF f r n]
      one
    by (simp del: show_nat.simps)
  from 1 2 3 4 show ?thesis by (intro conjI) simp_all
qed

text \<open>
  Claim C9, amended: the sample is the first 2048 characters of the text of the file,
  decoded as UTF-8 with undecodable bytes dropped and line ends normalised; for a file of
  ASCII bytes without carriage returns these are its first 2048 bytes. If a comma is in
  the sample, the comma is passed to the parser as the delimiter, and the result of the
  loader is that of parsing the file at commas and checking the schema: it depends on
  the tokenizer only through the records of the file at commas.
\<close>

theorem delimiter_inference:
  assumes "files path = Some content"
  shows "sample_of content = take 2048 (universal_newlines (utf8_ignore content)) \<and>
         length (sample_of content) \<le> 2048 \<and>
         ((\<forall>b\<in>set content. (of_char b :: nat) < 128 \<and> b \<noteq> CHR 0x0D) \<longrightarrow>
            sample_of content = map of_char (take 2048 content)) \<and>
         (44 \<in> set (sample_of content) \<longrightarrow>
            infer_delimiter content = Some CHR '','' \<and>
            load_data_file infer reader files path =
              (case read_csv infer reader path (Some CHR '','') content of
                 Inl e \<Rightarrow> Inl e
               | Inr df \<Rightarrow> force_headers df) \<and>
            (reader' path CHR '','' content = reader path CHR '','' content \<longrightarrow>
               load_data_file infer reader' files path = load_data_file infer reader files path))"
proof -
  have 1: "sample_of content = take 2048 (universal_newlines (utf8_ignore content))"
    by (simp add: sample_of_def read_text_def)
  have 2: "length (sample_of content) \<le> 2048" by (simp add: sample_of_def)
  have 3: "infer_delimiter content = Some CHR '',''" if "44 \<in> set (sample_of content)"
    using that by (simp add: infer_delimiter_def)
  have 4: "load_data_file infer reader files path =
             (case read_csv infer reader path (Some CHR '','') content of
                Inl e \<Rightarrow> Inl e
              | Inr df \<Rightarrow> force_headers df)"
    if "44 \<in> set (sample_of content)"
    using assms 3 [OF that] by (simp add: load_data_file_def)
  have 5: "load_data_file infer reader' files path = load_data_file infer reader files path"
    if "44 \<in> set (sample_of content)"
      and "reader' path CHR '','' content = reader path CHR '','' content"
    using assms that(2) 3 [OF that(1)]
    by (simp add: load_data_file_def read_csv_def refine_delimiter_def)
  show ?thesis using 1 2 3 4 5 sample_of_ascii [of content] by blast
qed

text \<open>
  In \<open>wide_file\<close> the comma is in the sample and is passed as the delimiter;
  \<open>header_file\<close> is ASCII, and its sample is made of its first bytes.
\<close>

theorem delimiter_inference_witness:
  "44 \<in> set (sample_of wide_file) \<and>
   length (sample_of wide_file) \<le> 2048 \<and>
   infer_delimiter wide_file = Some CHR '','' \<and>
   load_data_file keep_text plain_reader [''wine.data'' \<mapsto> wide_file] ''wine.data'' =
     (case read_csv keep_text plain_reader ''wine.data'' (Some CHR '','') wide_file of
        Inl e \<Rightarrow> Inl e
      | Inr df \<Rightarrow> force_headers df) \<and>
   load_data_file keep_text (\<lambda>p d. plain_reader p CHR '','') [''wine.data'' \<mapsto> wide_file] ''wine.data'' =
     load_data_file keep_text plain_reader [''wine.data'' \<mapsto> wide_file] ''wine.data'' \<and>
   sample_of header_file = map of_char (take 2048 header_file)"
proof -
  have f: "[''wine.data'' \<mapsto> wide_file] ''wine.data'' = Some wide_file" by simp
  have g: "[''wine.data'' \<mapsto> header_file] ''wine.data'' = Some header_file" by simp
  note w = delimiter_inference [where files = "[''wine.data'' \<mapsto> wide_file]"
      and path = "''wine.data''" and infer = keep_text and reader = plain_reader
      and reader' = "\<lambda>p d. plain_reader p CHR '',''", OF f]
  note h = delimiter_inference [where files = "[''wine.data'' \<mapsto> header_file]"
      and path = "''wine.data''" and infer = keep_text and reader = plain_reader
      and reader' = plain_reader, OF g]
  note c = w [THEN conjunct2, THEN conjunct2, THEN conjunct2, THEN mp, OF sample_of_wide_file]
  have 1: "length (sample_of wide_file) \<le> 2048"
    by (rule w [THEN conjunct2, THEN conjunct1])
  have 2: "infer_delimiter wide_file = Some CHR '',''"
    by (rule c [THEN conjunct1])
  have 3: "load_data_file keep_text plain_reader [''wine.data'' \<mapsto> wide_file] ''wine.data'' =
     (case read_csv keep_text plain_reader ''wine.data'' (Some CHR '','') wide_file of
        Inl e \<Rightarrow> Inl e
      | Inr df \<Rightarrow> force_headers df)"
    by (rule c [THEN conjunct2, THEN conjunct1])
  have 4: "load_data_file keep_text (\<lambda>p d. plain_reader p CHR '','') [''wine.data'' \<mapsto> wide_file]
       ''wine.data'' =
     load_data_file keep_text plain_reader [''wine.data'' \<mapsto> wide_file] ''wine.data''"
    by (rule c [THEN conjunct2, THEN conjunct2, THEN mp, OF refl])
  have 5: "sample_of header_file = map of_char (take 2048 header_file)"
    by (rule h [THEN conjunct2, THEN conjunct2, THEN conjunct1, THEN mp, OF header_file_plain])
  show ?thesis using sample_of_wide_file 1 2 3 4 5 by (intro conjI)
qed

section \<open>Properties of the writer\<close>

text \<open>
  Claim C8: when the extension of the output path is \<open>.xlsx\<close> in any capitalisation and
  \<open>openpyxl\<close> is not installed, saving fails with \<open>ImportError\<close>, the message ends with
  the advice to save the file as CSV, and no file is written.
\<close>

theorem save_missing_dependency:
  assumes "lower (path_suffix output_path) = ''.xlsx''" "\<not> openpyxl_installed w"
  shows "save_output w df output_path files = (Inl (ImportError openpyxl_message), files) \<and>
         (\<exists>before. openpyxl_message = before @ ''Or save the file as CSV instead.'')"
proof -
  let ?before =
    "''Excel export requires '' @ [CHR 0x27] @ ''openpyxl'' @ [CHR 0x27] @ '' package.'' @
     [CHR 0x0A, CHR 0x0A] @ ''Please install it by running:'' @ [CHR 0x0A] @
     ''pip install openpyxl'' @ [CHR 0x0A, CHR 0x0A]"
  have "save_output w df output_path files = (Inl (ImportError openpyxl_message), files)"
    using assms by (simp add: save_output_def to_excel_def)
  moreover have "openpyxl_message = ?before @ ''Or save the file as CSV instead.''"
    unfolding openpyxl_message_def by (simp only: append_assoc)
  ultimately show ?thesis by (intro conjI exI [of _ ?before])
qed

theorem save_missing_dependency_witness:
  "lower (path_suffix ''results/wine.XLSX'') = ''.xlsx'' \<and> \<not> openpyxl_installed no_openpyxl \<and>
   save_output no_openpyxl sample_table ''results/wine.XLSX'' Map.empty =
     (Inl (ImportError openpyxl_message), Map.empty)"
proof -
  have e: "lower (path_suffix ''results/wine.XLSX'') = ''.xlsx''" by code_simp
  have n: "\<not> openpyxl_installed no_openpyxl" by (simp add: no_openpyxl_def)
  from save_missing_dependency [OF e n, of sample_table Map.empty] e n show ?thesis by simp
qed

text \<open>
  Claim C7: when the extension of the output path, in lower case, is neither \<open>.csv\<close>
  nor \<open>.xlsx\<close>, saving fails with the \<open>ValueError\<close> for an unsupported format, and the
  files are what they were: nothing is written at the output path.
\<close>

theorem save_unsupported_format:
  assumes "lower (path_suffix output_path) \<noteq> ''.csv''" "lower (path_suffix output_path) \<noteq> ''.xlsx''"
  shows "save_output w df output_path files =
           (Inl (ValueError ''Unsupported output format. Please use .xlsx or .csv''), files)"
  using assms by (simp add: save_output_def)

theorem save_unsupported_format_witness:
  "lower (path_suffix ''results/wine.txt'') \<noteq> ''.csv'' \<and>
   lower (path_suffix ''results/wine.txt'') \<noteq> ''.xlsx'' \<and>
   save_output no_openpyxl sample_table ''results/wine.txt'' Map.empty =
     (Inl (ValueError ''Unsupported output format. Please use .xlsx or .csv''), Map.empty)"
proof -
  have e: "lower (path_suffix ''results/wine.txt'') = ''.txt''" by code_simp
  have a: "lower (path_suffix ''results/wine.txt'') \<noteq> ''.csv''"
    and b: "lower (path_suffix ''results/wine.txt'') \<noteq> ''.xlsx''"
    unfolding e by simp_all
  from save_unsupported_format [OF a b, of no_openpyxl sample_table Map.empty] a b
  show ?thesis by simp
qed

section \<open>The round trip through a CSV file\<close>




end
